theory Spec2Isabelle
  imports Main "HOL-Library.Sublist" "HOL-Library.AList" "HOL-Library.Word"
begin

section \<open>The dataset loader of viz\_scout (src/viz\_scout/dataset.py)\<close>

text \<open>
  The class \<open>DatasetLoader\<close> reads image files from a local directory, an S3 bucket or a
  MinIO bucket and returns a dict from identifier to an in-memory \<open>BytesIO\<close> stream.
  The embedding makes the outside world an explicit value: the file system, the two client
  libraries and the log of external calls made so far. Every method takes the world and
  returns its result together with the world afterwards; an exception is the \<open>Inl\<close> side
  of the result. The \<open>logging\<close> calls and the \<open>tqdm\<close> progress bar produce no value the
  methods use and are left out; each \<open>except Exception: log; raise\<close> handler re-raises the
  exception it caught, so it is the identity on results.

  Python strings are lists of \<open>char\<close>, each read as a code point below 256.
\<close>

subsection \<open>Strings: \<open>str.lower\<close>, \<open>str.startswith\<close>, \<open>str.endswith\<close>, \<open>os.path.join\<close>\<close>

definition lower_char :: "char \<Rightarrow> char" where
  \<comment> \<open>\<open>str.lower\<close> on one code point below 256: A-Z and the Latin-1 capitals move by 32\<close>
  "lower_char c =
     (let n = (of_char c :: nat)
      in if (65 \<le> n \<and> n \<le> 90) \<or> (192 \<le> n \<and> n \<le> 222 \<and> n \<noteq> 215)
         then char_of (n + 32) else c)"

definition lower :: "string \<Rightarrow> string" where
  "lower s = map lower_char s"

definition startswith :: "string \<Rightarrow> string \<Rightarrow> bool" where
  "startswith s p = prefix p s"

definition endswith :: "string \<Rightarrow> string list \<Rightarrow> bool" where
  \<comment> \<open>\<open>s.endswith(tuple)\<close>: true when some member of the tuple is a suffix of \<open>s\<close>\<close>
  "endswith s exts = list_ex (\<lambda>e. suffix e s) exts"

definition image_exts :: "string list" where
  "image_exts = [''.png'', ''.jpg'', ''.jpeg'', ''.bmp'']"

definition is_image :: "string \<Rightarrow> bool" where
  \<comment> \<open>the filter of all three strategies: \<open>name.lower().endswith(('.png', '.jpg', '.jpeg', '.bmp'))\<close>\<close>
  "is_image name = endswith (lower name) image_exts"

definition join :: "string \<Rightarrow> string \<Rightarrow> string" where
  \<comment> \<open>\<open>os.path.join(a, b)\<close> of posixpath, for two arguments\<close>
  "join a b =
     (if startswith b ''/'' then b
      else if a = [] \<or> endswith a [''/''] then a @ b
      else a @ ''/'' @ b)"

subsection \<open>Errors, byte streams, the result dict\<close>

datatype error =
    ValueError string
  | KeyError string
  | TypeError
  | FileNotFoundError
  | NotADirectoryError
  | IsADirectoryError
  | PermissionError
  | ClientError string

type_synonym bytes = "8 word list"

record BytesIO =
  getvalue :: bytes
  tell :: nat

definition BytesIO_of :: "bytes \<Rightarrow> BytesIO" where
  \<comment> \<open>\<open>BytesIO(initial)\<close>; \<open>BytesIO()\<close> is \<open>BytesIO_of []\<close>\<close>
  "BytesIO_of initial = \<lparr>getvalue = initial, tell = 0\<rparr>"

definition seek :: "BytesIO \<Rightarrow> nat \<Rightarrow> BytesIO" where
  "seek s n = s\<lparr>tell := n\<rparr>"

definition BytesIO_write :: "BytesIO \<Rightarrow> bytes \<Rightarrow> BytesIO" where
  \<comment> \<open>overwrite from the current position, padding with zero bytes past the end\<close>
  "BytesIO_write s d =
     (let p = tell s;
          b = (if length (getvalue s) < p
               then getvalue s @ replicate (p - length (getvalue s)) 0 else getvalue s)
      in \<lparr>getvalue = take p b @ d @ drop (p + length d) b, tell = p + length d\<rparr>)"

type_synonym dict = "(string \<times> BytesIO) list"

definition setitem :: "dict \<Rightarrow> string \<Rightarrow> BytesIO \<Rightarrow> dict" where
  \<comment> \<open>\<open>d[k] = v\<close>: replace the value of an existing key in place, else append\<close>
  "setitem d k v = AList.update k v d"

definition keys :: "dict \<Rightarrow> string list" where
  "keys d = map fst d"

subsection \<open>Construction arguments\<close>

datatype cfgval = Str string | Bool bool

type_synonym config = "(string \<times> cfgval) list"

record DatasetLoader =
  source :: string
  minio_config :: "config option"
  s3_config :: "config option"

definition init :: "string \<Rightarrow> config option \<Rightarrow> config option \<Rightarrow> DatasetLoader" where
  \<comment> \<open>\<open>__init__(self, source, minio_config=None, s3_config=None)\<close> stores its arguments\<close>
  "init src mc sc = \<lparr>source = src, minio_config = mc, s3_config = sc\<rparr>"

definition getitem :: "config \<Rightarrow> string \<Rightarrow> error + cfgval" where
  \<comment> \<open>\<open>cfg[k]\<close> raises KeyError on a missing key\<close>
  "getitem cfg k = (case map_of cfg k of None \<Rightarrow> Inl (KeyError k) | Some v \<Rightarrow> Inr v)"

definition get_default :: "config \<Rightarrow> string \<Rightarrow> cfgval \<Rightarrow> cfgval" where
  \<comment> \<open>\<open>cfg.get(k, default)\<close>\<close>
  "get_default cfg k d = (case map_of cfg k of None \<Rightarrow> d | Some v \<Rightarrow> v)"

subsection \<open>The world: file system, client libraries, log of external calls\<close>

datatype node = File bytes | Dir "string list" | Denied

record s3_client =
  s3_pages :: "cfgval \<Rightarrow> error + string list list"
    \<comment> \<open>the listing of a bucket as the service pages it: the keys of page 1, of page 2, ...\<close>
  s3_body :: "cfgval \<Rightarrow> string \<Rightarrow> error + bytes"
    \<comment> \<open>GetObject: the bytes of a key of a bucket, or the failure of the request\<close>

record minio_client =
  minio_names :: "cfgval \<Rightarrow> string list \<times> error option"
    \<comment> \<open>the object names of a bucket at every depth, in the order the lazy listing yields
        them, and the error that ends the listing early (if any)\<close>
  minio_fget :: "cfgval \<Rightarrow> string \<Rightarrow> BytesIO \<Rightarrow> error + BytesIO"
    \<comment> \<open>what \<open>fget_object(bucket_name, object_name, file_path)\<close> of the installed library
        does when \<open>file_path\<close> is the given stream: the exception it raises, or the stream
        afterwards\<close>

datatype call =
    Call_exists string
  | Call_listdir string
  | Call_open string
  | Call_boto3_client
  | Call_list_objects_v2 cfgval
  | Call_download_fileobj cfgval string
  | Call_Minio
  | Call_list_objects cfgval bool
  | Call_fget_object cfgval string

record world =
  fs :: "string \<Rightarrow> node option"
  boto3_client :: "cfgval \<Rightarrow> cfgval \<Rightarrow> cfgval \<Rightarrow> error + s3_client"
  Minio :: "cfgval \<Rightarrow> cfgval \<Rightarrow> cfgval \<Rightarrow> cfgval \<Rightarrow> error + minio_client"
  calls :: "call list"

definition did :: "call \<Rightarrow> world \<Rightarrow> world" where
  "did c w = w\<lparr>calls := calls w @ [c]\<rparr>"

definition os_path_exists :: "string \<Rightarrow> world \<Rightarrow> bool \<times> world" where
  "os_path_exists p w = (fs w p \<noteq> None, did (Call_exists p) w)"

definition os_listdir :: "string \<Rightarrow> world \<Rightarrow> (error + string list) \<times> world" where
  "os_listdir p w =
     ((case fs w p of
         None \<Rightarrow> Inl FileNotFoundError
       | Some (File _) \<Rightarrow> Inl NotADirectoryError
       | Some Denied \<Rightarrow> Inl PermissionError
       | Some (Dir names) \<Rightarrow> Inr names),
      did (Call_listdir p) w)"

definition open_read :: "string \<Rightarrow> world \<Rightarrow> (error + bytes) \<times> world" where
  \<comment> \<open>\<open>with open(file, "rb") as f: f.read()\<close>\<close>
  "open_read p w =
     ((case fs w p of
         None \<Rightarrow> Inl FileNotFoundError
       | Some (Dir _) \<Rightarrow> Inl IsADirectoryError
       | Some Denied \<Rightarrow> Inl PermissionError
       | Some (File data) \<Rightarrow> Inr data),
      did (Call_open p) w)"

definition list_objects_v2 :: "s3_client \<Rightarrow> cfgval \<Rightarrow> world \<Rightarrow> (error + string list option) \<times> world" where
  \<comment> \<open>one ListObjectsV2 request without a continuation token: the response of the first page;
      its \<open>Contents\<close> entry is missing when the page has no key\<close>
  "list_objects_v2 s3 bucket w =
     ((case s3_pages s3 bucket of
         Inl e \<Rightarrow> Inl e
       | Inr [] \<Rightarrow> Inr None
       | Inr (page # _) \<Rightarrow> Inr (if page = [] then None else Some page)),
      did (Call_list_objects_v2 bucket) w)"

definition get_Contents :: "string list option \<Rightarrow> string list" where
  \<comment> \<open>\<open>response.get("Contents", [])\<close>, each entry reduced to its \<open>Key\<close>\<close>
  "get_Contents r = (case r of None \<Rightarrow> [] | Some objs \<Rightarrow> objs)"

definition download_fileobj :: "s3_client \<Rightarrow> cfgval \<Rightarrow> string \<Rightarrow> BytesIO \<Rightarrow> world \<Rightarrow> (error + BytesIO) \<times> world" where
  \<comment> \<open>writes the body of the object into the file object it is given\<close>
  "download_fileobj s3 bucket key fileobj w =
     ((case s3_body s3 bucket key of Inl e \<Rightarrow> Inl e | Inr data \<Rightarrow> Inr (BytesIO_write fileobj data)),
      did (Call_download_fileobj bucket key) w)"

definition top_level :: "string list \<Rightarrow> string list" where
  \<comment> \<open>what a non-recursive listing shows: names without a slash, and the first-level prefixes\<close>
  "top_level names =
     remdups (map (\<lambda>n. if CHR ''/'' \<in> set n then takeWhile (\<lambda>c. c \<noteq> CHR ''/'') n @ ''/'' else n) names)"

definition list_objects :: "minio_client \<Rightarrow> cfgval \<Rightarrow> bool \<Rightarrow> world \<Rightarrow> (string list \<times> error option) \<times> world" where
  "list_objects client bucket recursive w =
     ((case minio_names client bucket of
         (names, err) \<Rightarrow> (if recursive then names else top_level names, err)),
      did (Call_list_objects bucket recursive) w)"

definition minio_py_fget :: "cfgval \<Rightarrow> string \<Rightarrow> BytesIO \<Rightarrow> error + BytesIO" where
  \<comment> \<open>The minio package documents \<open>fget_object(bucket_name, object_name, file_path)\<close> as
      downloading an object to the file named \<open>file_path\<close> on disk. Given a \<open>BytesIO\<close> as
      \<open>file_path\<close> it passes it to \<open>os.path.isdir\<close>, whose \<open>os.stat\<close> raises TypeError for a
      value that is not a path; the stream is never written.\<close>
  "minio_py_fget bucket key file_path = Inl TypeError"

definition fget_object :: "minio_client \<Rightarrow> cfgval \<Rightarrow> string \<Rightarrow> BytesIO \<Rightarrow> world \<Rightarrow> (error + BytesIO) \<times> world" where
  "fget_object client bucket key file_path w =
     (minio_fget client bucket key file_path, did (Call_fget_object bucket key) w)"

subsection \<open>The three strategies and the dispatch\<close>

definition load_file :: "string \<Rightarrow> world \<Rightarrow> (error + BytesIO) \<times> world" where
  "load_file file w =
     (case open_read file w of
        (Inl e, w') \<Rightarrow> (Inl e, w')
      | (Inr data, w') \<Rightarrow> (Inr (seek (BytesIO_of data) 0), w'))"

fun local_images :: "string \<Rightarrow> string list \<Rightarrow> dict \<Rightarrow> world \<Rightarrow> (error + dict) \<times> world" where
  \<comment> \<open>the dict comprehension over \<open>image_files\<close>, entry by entry\<close>
  "local_images src [] images w = (Inr images, w)"
| "local_images src (file # rest) images w =
     (case load_file (join src file) w of
        (Inl e, w') \<Rightarrow> (Inl e, w')
      | (Inr file_stream, w') \<Rightarrow> local_images src rest (setitem images (join src file) file_stream) w')"

definition load_from_local :: "DatasetLoader \<Rightarrow> world \<Rightarrow> (error + dict) \<times> world" where
  "load_from_local self w =
     (case os_path_exists (source self) w of
        (False, w1) \<Rightarrow> (Inl (ValueError (''Local path does not exist: '' @ source self)), w1)
      | (True, w1) \<Rightarrow>
          (case os_listdir (source self) w1 of
             (Inl e, w2) \<Rightarrow> (Inl e, w2)
           | (Inr names, w2) \<Rightarrow> local_images (source self) (filter is_image names) [] w2))"

fun s3_images :: "s3_client \<Rightarrow> cfgval \<Rightarrow> string list \<Rightarrow> dict \<Rightarrow> world \<Rightarrow> (error + dict) \<times> world" where
  \<comment> \<open>the \<open>for obj in objects\<close> loop of \<open>_load_from_s3\<close>\<close>
  "s3_images s3 bucket [] files w = (Inr files, w)"
| "s3_images s3 bucket (key # objects) files w =
     (if is_image key then
        (case download_fileobj s3 bucket key (BytesIO_of []) w of
           (Inl e, w') \<Rightarrow> (Inl e, w')
         | (Inr file_stream, w') \<Rightarrow> s3_images s3 bucket objects (setitem files key (seek file_stream 0)) w')
      else s3_images s3 bucket objects files w)"

definition load_from_s3 :: "DatasetLoader \<Rightarrow> world \<Rightarrow> (error + dict) \<times> world" where
  "load_from_s3 self w =
     (case s3_config self of
        None \<Rightarrow> (Inl (ValueError ''S3 configuration is required for loading from S3.''), w)
      | Some cfg \<Rightarrow>
          if cfg = [] then (Inl (ValueError ''S3 configuration is required for loading from S3.''), w)
          else
            (case getitem cfg ''access_key'' of Inl e \<Rightarrow> (Inl e, w) | Inr access_key \<Rightarrow>
            (case getitem cfg ''secret_key'' of Inl e \<Rightarrow> (Inl e, w) | Inr secret_key \<Rightarrow>
            (case getitem cfg ''region'' of Inl e \<Rightarrow> (Inl e, w) | Inr region \<Rightarrow>
            (let w1 = did Call_boto3_client w in
            (case boto3_client w access_key secret_key region of Inl e \<Rightarrow> (Inl e, w1) | Inr s3 \<Rightarrow>
            (case getitem cfg ''bucket'' of Inl e \<Rightarrow> (Inl e, w1) | Inr bucket \<Rightarrow>
            (case list_objects_v2 s3 bucket w1 of
               (Inl e, w2) \<Rightarrow> (Inl e, w2)
             | (Inr response, w2) \<Rightarrow> s3_images s3 bucket (get_Contents response) [] w2))))))))"

fun minio_images :: "minio_client \<Rightarrow> cfgval \<Rightarrow> string list \<Rightarrow> error option \<Rightarrow> dict \<Rightarrow> world \<Rightarrow> (error + dict) \<times> world" where
  \<comment> \<open>the \<open>for obj in objects\<close> loop of \<open>_load_from_minio\<close> over the lazy listing\<close>
  "minio_images client bucket [] None files w = (Inr files, w)"
| "minio_images client bucket [] (Some e) files w = (Inl e, w)"
| "minio_images client bucket (key # objects) err files w =
     (if is_image key then
        (case fget_object client bucket key (BytesIO_of []) w of
           (Inl e, w') \<Rightarrow> (Inl e, w')
         | (Inr file_stream, w') \<Rightarrow> minio_images client bucket objects err (setitem files key (seek file_stream 0)) w')
      else minio_images client bucket objects err files w)"

definition load_from_minio :: "DatasetLoader \<Rightarrow> world \<Rightarrow> (error + dict) \<times> world" where
  "load_from_minio self w =
     (case minio_config self of
        None \<Rightarrow> (Inl (ValueError ''MinIO configuration is required for loading from MinIO.''), w)
      | Some cfg \<Rightarrow>
          if cfg = [] then (Inl (ValueError ''MinIO configuration is required for loading from MinIO.''), w)
          else
            (case getitem cfg ''endpoint'' of Inl e \<Rightarrow> (Inl e, w) | Inr endpoint \<Rightarrow>
            (case getitem cfg ''access_key'' of Inl e \<Rightarrow> (Inl e, w) | Inr access_key \<Rightarrow>
            (case getitem cfg ''secret_key'' of Inl e \<Rightarrow> (Inl e, w) | Inr secret_key \<Rightarrow>
            (let secure = get_default cfg ''secure'' (Bool False);
                 w1 = did Call_Minio w in
            (case Minio w endpoint access_key secret_key secure of Inl e \<Rightarrow> (Inl e, w1) | Inr client \<Rightarrow>
            (case getitem cfg ''bucket'' of Inl e \<Rightarrow> (Inl e, w1) | Inr bucket \<Rightarrow>
            (case list_objects client bucket True w1 of
               ((objects, err), w2) \<Rightarrow> minio_images client bucket objects err [] w2))))))))"

definition load_images :: "DatasetLoader \<Rightarrow> world \<Rightarrow> (error + dict) \<times> world" where
  "load_images self w =
     (if startswith (source self) ''s3://'' then load_from_s3 self w
      else if startswith (source self) ''minio://'' then load_from_minio self w
      else load_from_local self w)"

subsection \<open>Vocabulary of the properties\<close>

fun fetched :: "call \<Rightarrow> string option" where
  \<comment> \<open>the object a call reads the bytes of, if it reads any\<close>
  "fetched (Call_open p) = Some p"
| "fetched (Call_download_fileobj bucket key) = Some key"
| "fetched (Call_fget_object bucket key) = Some key"
| "fetched c = None"

fun is_listing :: "call \<Rightarrow> bool" where
  "is_listing (Call_list_objects_v2 bucket) = True"
| "is_listing c = False"

definition new_calls :: "world \<Rightarrow> world \<Rightarrow> call list" where
  \<comment> \<open>the calls logged between the world before and the world after\<close>
  "new_calls w w' = drop (length (calls w)) (calls w')"

definition s3_ready :: "DatasetLoader \<Rightarrow> world \<Rightarrow> s3_client \<Rightarrow> cfgval \<Rightarrow> bool" where
  \<comment> \<open>the S3 configuration has its four fields and the client construction gives \<open>s3\<close>\<close>
  "s3_ready self w s3 bucket =
     (case s3_config self of
        None \<Rightarrow> False
      | Some cfg \<Rightarrow>
          (case (map_of cfg ''access_key'', map_of cfg ''secret_key'', map_of cfg ''region'',
                 map_of cfg ''bucket'') of
             (Some access_key, Some secret_key, Some region, Some b) \<Rightarrow>
               boto3_client w access_key secret_key region = Inr s3 \<and> b = bucket
           | _ \<Rightarrow> False))"

definition minio_ready :: "DatasetLoader \<Rightarrow> world \<Rightarrow> minio_client \<Rightarrow> cfgval \<Rightarrow> bool" where
  \<comment> \<open>the MinIO configuration has its four required fields and the client construction
      gives \<open>client\<close>\<close>
  "minio_ready self w client bucket =
     (case minio_config self of
        None \<Rightarrow> False
      | Some cfg \<Rightarrow>
          (case (map_of cfg ''endpoint'', map_of cfg ''access_key'', map_of cfg ''secret_key'',
                 map_of cfg ''bucket'') of
             (Some endpoint, Some access_key, Some secret_key, Some b) \<Rightarrow>
               Minio w endpoint access_key secret_key (get_default cfg ''secure'' (Bool False))
                 = Inr client \<and> b = bucket
           | _ \<Rightarrow> False))"

definition same_origin :: "world \<Rightarrow> world \<Rightarrow> bool" where
  \<comment> \<open>two worlds with the same file system and the same services; only the logs may differ\<close>
  "same_origin w w' =
     (fs w = fs w' \<and> boto3_client w = boto3_client w' \<and> Minio w = Minio w')"

subsection \<open>Example worlds\<close>

definition demo_fs :: "string \<Rightarrow> node option" where
  "demo_fs =
     [''data'' \<mapsto> Dir [''a.PNG'', ''notes.txt'', ''b.jpeg''],
      ''data/a.PNG'' \<mapsto> File [1, 2, 3],
      ''data/notes.txt'' \<mapsto> Denied,
      ''data/b.jpeg'' \<mapsto> File [4],
      ''broken'' \<mapsto> Dir [''a.png'', ''b.png''],
      ''broken/a.png'' \<mapsto> File [5]]"

definition demo_s3 :: s3_client where
  "demo_s3 =
     \<lparr>s3_pages = (\<lambda>b. if b = Str ''imgs'' then Inr [[''x.jpg'', ''readme.md''], [''y.png'']]
                       else if b = Str ''flaky'' then Inr [[''x.jpg'', ''z.bmp'']]
                       else Inl (ClientError ''NoSuchBucket'')),
      s3_body = (\<lambda>b k. if k = ''x.jpg'' then Inr [7, 8]
                        else if k = ''y.png'' then Inr [9]
                        else Inl (ClientError ''NoSuchKey''))\<rparr>"

definition demo_minio :: minio_client where
  "demo_minio =
     \<lparr>minio_names = (\<lambda>b. if b = Str ''imgs'' then ([''top.txt'', ''a/b/c.png''], None)
                         else if b = Str ''docs'' then ([''top.txt'', ''a/readme.md''], None)
                         else ([], Some (ClientError ''NoSuchBucket''))),
      minio_fget = minio_py_fget\<rparr>"

definition demo_world :: world where
  "demo_world =
     \<lparr>fs = demo_fs,
      boto3_client = (\<lambda>access_key secret_key region. Inr demo_s3),
      Minio = (\<lambda>endpoint access_key secret_key secure. Inr demo_minio),
      calls = []\<rparr>"

definition demo_s3_config :: "string \<Rightarrow> config" where
  "demo_s3_config b =
     [(''bucket'', Str b), (''access_key'', Str ''AK''), (''secret_key'', Str ''SK''),
      (''region'', Str ''eu-west-1'')]"

definition demo_minio_config :: "string \<Rightarrow> config" where
  "demo_minio_config b =
     [(''endpoint'', Str ''localhost:9000''), (''access_key'', Str ''AK''),
      (''secret_key'', Str ''SK''), (''bucket'', Str b)]"

section \<open>Properties\<close>

subsection \<open>Evaluation on concrete inputs\<close>

lemmas str_eval = is_image_def lower_def lower_char_def endswith_def image_exts_def join_def
  startswith_def suffix_to_prefix char_of_def bit_Suc_0_iff

lemmas demo_eval = init_def demo_world_def demo_fs_def demo_s3_def demo_minio_def
  demo_s3_config_def demo_minio_config_def s3_ready_def minio_ready_def get_default_def

subsection \<open>Suffixes and joined paths\<close>

lemma minio_not_s3: "startswith s ''minio://'' \<Longrightarrow> \<not> startswith s ''s3://''"
  by (auto simp: startswith_def prefix_def)

lemma lower_append: "lower (a @ b) = lower a @ lower b"
  by (simp add: lower_def)

lemma lower_char_slash: "lower_char c = CHR ''/'' \<longleftrightarrow> c = CHR ''/''"
proof -
  have "of_char (lower_char c) = (47::nat) \<longleftrightarrow> of_char c = (47::nat)"
    by (auto simp: lower_char_def Let_def)
  moreover have "of_char (CHR ''/'') = (47::nat)" by simp
  ultimately show ?thesis
    by (metis of_char_eq_iff)
qed

lemma is_image_append: "is_image b \<Longrightarrow> is_image (a @ b)"
  by (auto simp: is_image_def endswith_def list_ex_iff lower_append suffix_append)

lemma slash_not_in_ext: "e \<in> set image_exts \<Longrightarrow> CHR ''/'' \<notin> set e"
  by (auto simp: image_exts_def)

lemma is_image_after_slash:
  assumes "p \<noteq> []" "last p = CHR ''/''" "is_image (p @ b)"
  shows "is_image b"
proof -
  from assms(3) obtain e where e: "e \<in> set image_exts" "suffix e (lower p @ lower b)"
    by (auto simp: is_image_def endswith_def list_ex_iff lower_append)
  from e(2) have "suffix e (lower b) \<or> (\<exists>x. suffix x (lower p) \<and> e = x @ lower b \<and> x \<noteq> [])"
    unfolding suffix_append by (cases "suffix e (lower b)") (auto simp: suffix_def)
  then consider "suffix e (lower b)" | x where "suffix x (lower p)" "e = x @ lower b" "x \<noteq> []"
    by blast
  then have "suffix e (lower b)"
  proof cases
    case 1 then show ?thesis .
  next
    case 2
    from assms(1) have lp: "lower p \<noteq> []" by (simp add: lower_def)
    from 2 lp have "last x = last (lower p)"
      by (auto simp: suffix_def)
    also have "\<dots> = CHR ''/''"
      using assms(1,2) by (simp add: lower_def last_map lower_char_slash)
    finally have "CHR ''/'' \<in> set x" using 2(3) last_in_set by metis
    with 2(2) have "CHR ''/'' \<in> set e" by simp
    with slash_not_in_ext [OF e(1)] show ?thesis by simp
  qed
  with e(1) show ?thesis
    by (auto simp: is_image_def endswith_def list_ex_iff)
qed

lemma join_decomp: "\<exists>p. join a b = p @ b \<and> (p = [] \<or> last p = CHR ''/'')"
proof (cases "startswith b ''/''")
  case True
  then have "join a b = [] @ b" by (simp add: join_def)
  then show ?thesis by blast
next
  case nb: False
  show ?thesis
  proof (cases "a = [] \<or> endswith a [''/'']")
    case True
    then have "join a b = a @ b \<and> (a = [] \<or> last a = CHR ''/'')"
      using nb by (auto simp: join_def endswith_def suffix_def)
    then show ?thesis by blast
  next
    case False
    then have "join a b = (a @ ''/'') @ b \<and> last (a @ ''/'') = CHR ''/''"
      using nb by (simp add: join_def)
    then show ?thesis by blast
  qed
qed

lemma is_image_join: "is_image (join src f) \<longleftrightarrow> is_image f"
proof -
  obtain p where p: "join src f = p @ f" "p = [] \<or> last p = CHR ''/''"
    using join_decomp by blast
  show ?thesis
  proof (cases "p = []")
    case True with p show ?thesis by simp
  next
    case False
    with p is_image_after_slash [of p f] is_image_append [of f p] show ?thesis by auto
  qed
qed

lemma join_inject:
  assumes "CHR ''/'' \<notin> set a" "CHR ''/'' \<notin> set b" "join src a = join src b"
  shows "a = b"
proof -
  have "\<not> startswith a ''/''" "\<not> startswith b ''/''"
    using assms(1,2) by (auto simp: startswith_def prefix_def)
  with assms(3) show ?thesis by (auto simp: join_def split: if_splits)
qed

subsection \<open>The log, the dict and the two readers\<close>

lemma did_fields [simp]:
  "fs (did c w) = fs w" "boto3_client (did c w) = boto3_client w" "Minio (did c w) = Minio w"
  "calls (did c w) = calls w @ [c]"
  by (simp_all add: did_def)

lemma did_as_update: "did c w = w\<lparr>calls := calls w @ [c]\<rparr>"
  by (simp add: did_def)

lemma setitem_keys: "set (keys (setitem d k v)) = insert k (set (keys d))"
  by (simp add: setitem_def keys_def dom_update)

lemma setitem_map_of: "map_of (setitem d k v) = (map_of d)(k \<mapsto> v)"
  by (simp add: setitem_def update_conv')

lemma setitem_fresh: "k \<notin> set (keys d) \<Longrightarrow> setitem d k v = d @ [(k, v)]"
  unfolding setitem_def keys_def by (induction d) auto

lemma load_file_eq:
  "load_file p w =
     ((case fs w p of
         None \<Rightarrow> Inl FileNotFoundError
       | Some (Dir names) \<Rightarrow> Inl IsADirectoryError
       | Some Denied \<Rightarrow> Inl PermissionError
       | Some (File data) \<Rightarrow> Inr \<lparr>getvalue = data, tell = 0\<rparr>),
      did (Call_open p) w)"
  by (simp add: load_file_def open_read_def BytesIO_of_def seek_def
      split: option.splits node.splits)

lemma download_empty_eq:
  "download_fileobj s3 bucket key (BytesIO_of []) w =
     ((case s3_body s3 bucket key of
         Inl e \<Rightarrow> Inl e
       | Inr data \<Rightarrow> Inr \<lparr>getvalue = data, tell = length data\<rparr>),
      did (Call_download_fileobj bucket key) w)"
  by (simp add: download_fileobj_def BytesIO_of_def BytesIO_write_def split: sum.splits)

subsection \<open>The local comprehension\<close>

lemma local_images_world:
  "\<exists>cs. snd (local_images src fl acc w) = w\<lparr>calls := calls w @ cs\<rparr> \<and>
        (\<forall>c\<in>set cs. \<exists>f\<in>set fl. c = Call_open (join src f))"
proof (induction fl arbitrary: acc w)
  case Nil
  have "snd (local_images src [] acc w) = w\<lparr>calls := calls w @ []\<rparr>" by simp
  then show ?case by fastforce
next
  case (Cons f fl)
  let ?c = "Call_open (join src f)"
  show ?case
  proof (cases "fst (load_file (join src f) w)")
    case (Inl e)
    then have "snd (local_images src (f # fl) acc w) = w\<lparr>calls := calls w @ [?c]\<rparr>"
      by (simp add: load_file_eq did_as_update split: prod.splits)
    then show ?thesis by fastforce
  next
    case (Inr s)
    then have eq: "local_images src (f # fl) acc w
        = local_images src fl (setitem acc (join src f) s) (did ?c w)"
      by (simp add: load_file_eq split: prod.splits)
    from Cons.IH [of "setitem acc (join src f) s" "did ?c w"]
    obtain cs where cs: "snd (local_images src fl (setitem acc (join src f) s) (did ?c w))
          = (did ?c w)\<lparr>calls := calls (did ?c w) @ cs\<rparr>"
        "\<forall>c\<in>set cs. \<exists>f\<in>set fl. c = Call_open (join src f)"
      by blast
    have "snd (local_images src (f # fl) acc w) = w\<lparr>calls := calls w @ (?c # cs)\<rparr>"
      using cs(1) eq by (simp add: did_as_update)
    moreover have "\<forall>c\<in>set (?c # cs). \<exists>g\<in>set (f # fl). c = Call_open (join src g)"
      using cs(2) by auto
    ultimately show ?thesis by blast
  qed
qed

lemma local_images_indep:
  "fs w1 = fs w2 \<Longrightarrow> fst (local_images src fl acc w1) = fst (local_images src fl acc w2)"
proof (induction fl arbitrary: acc w1 w2)
  case Nil
  then show ?case by simp
next
  case (Cons f fl)
  show ?case
  proof (cases "fst (load_file (join src f) w1)")
    case (Inl e)
    with Cons.prems show ?thesis
      by (simp add: load_file_eq split: prod.splits)
  next
    case (Inr s)
    with Cons.prems have "fst (load_file (join src f) w2) = Inr s"
      by (simp add: load_file_eq)
    with Inr Cons.IH [of "did (Call_open (join src f)) w1" "did (Call_open (join src f)) w2"]
      Cons.prems
    show ?thesis
      by (simp add: load_file_eq split: prod.splits)
  qed
qed

lemma local_images_keys:
  "fst (local_images src fl acc w) = Inr d \<Longrightarrow>
     set (keys d) = set (keys acc) \<union> join src ` set fl"
proof (induction fl arbitrary: acc w)
  case Nil
  then show ?case by simp
next
  case (Cons f fl)
  show ?case
  proof (cases "fst (load_file (join src f) w)")
    case (Inl e)
    with Cons.prems show ?thesis
      by (simp add: load_file_eq split: prod.splits)
  next
    case (Inr s)
    with Cons.prems
    have "fst (local_images src fl (setitem acc (join src f) s) (did (Call_open (join src f)) w))
            = Inr d"
      by (simp add: load_file_eq split: prod.splits)
    from Cons.IH [OF this] show ?thesis
      by (auto simp: setitem_keys)
  qed
qed

lemma local_images_fail:
  "f \<in> set fl \<Longrightarrow> isl (fst (open_read (join src f) w)) \<Longrightarrow>
     isl (fst (local_images src fl acc w))"
proof (induction fl arbitrary: acc w)
  case Nil
  then show ?case by simp
next
  case (Cons g fl)
  show ?case
  proof (cases "fst (load_file (join src g) w)")
    case (Inl e)
    then show ?thesis
      by (simp add: load_file_eq split: prod.splits)
  next
    case (Inr s)
    then have g: "\<not> isl (fst (open_read (join src g) w))"
      by (auto simp: load_file_eq open_read_def split: option.splits node.splits)
    with Cons.prems have "f \<in> set fl" by auto
    moreover have "isl (fst (open_read (join src f) (did (Call_open (join src g)) w)))"
      using Cons.prems(2) by (simp add: open_read_def)
    ultimately have "isl (fst (local_images src fl (setitem acc (join src g) s)
        (did (Call_open (join src g)) w)))"
      by (rule Cons.IH)
    with Inr show ?thesis
      by (simp add: load_file_eq split: prod.splits)
  qed
qed

lemma local_images_ok:
  assumes "\<forall>f\<in>set fl. fs w (join src f) = Some (File (content f))"
    and "distinct (map (join src) fl)"
    and "\<forall>f\<in>set fl. join src f \<notin> set (keys acc)"
  shows "fst (local_images src fl acc w)
           = Inr (acc @ map (\<lambda>f. (join src f, \<lparr>getvalue = content f, tell = 0\<rparr>)) fl)"
  using assms
proof (induction fl arbitrary: acc w)
  case Nil
  then show ?case by simp
next
  case (Cons f fl)
  let ?s = "\<lparr>getvalue = content f, tell = 0\<rparr>"
  let ?w = "did (Call_open (join src f)) w"
  from Cons.prems(1) have lf: "load_file (join src f) w = (Inr ?s, ?w)"
    by (simp add: load_file_eq)
  from Cons.prems(3) have acc': "setitem acc (join src f) ?s = acc @ [(join src f, ?s)]"
    by (simp add: setitem_fresh)
  have "fst (local_images src fl (acc @ [(join src f, ?s)]) ?w)
          = Inr ((acc @ [(join src f, ?s)]) @ map (\<lambda>f. (join src f, \<lparr>getvalue = content f, tell = 0\<rparr>)) fl)"
  proof (rule Cons.IH)
    show "\<forall>g\<in>set fl. fs ?w (join src g) = Some (File (content g))"
      using Cons.prems(1) by simp
    show "distinct (map (join src) fl)" using Cons.prems(2) by simp
    show "\<forall>g\<in>set fl. join src g \<notin> set (keys (acc @ [(join src f, ?s)]))"
      using Cons.prems(2,3) by (auto simp: keys_def image_iff)
  qed
  with lf acc' show ?case by simp
qed

subsection \<open>The S3 loop\<close>

lemma s3_images_world:
  "\<exists>cs. snd (s3_images s3 b objs acc w) = w\<lparr>calls := calls w @ cs\<rparr> \<and>
        (\<forall>c\<in>set cs. \<exists>k\<in>set objs. is_image k \<and> c = Call_download_fileobj b k)"
proof (induction objs arbitrary: acc w)
  case Nil
  have "snd (s3_images s3 b [] acc w) = w\<lparr>calls := calls w @ []\<rparr>" by simp
  then show ?case by fastforce
next
  case (Cons key objs)
  let ?c = "Call_download_fileobj b key"
  show ?case
  proof (cases "is_image key")
    case False
    with Cons.IH [of acc w] show ?thesis by auto
  next
    case img: True
    show ?thesis
    proof (cases "s3_body s3 b key")
      case (Inl e)
      with img have "snd (s3_images s3 b (key # objs) acc w) = w\<lparr>calls := calls w @ [?c]\<rparr>"
        by (simp add: download_empty_eq did_as_update)
      with img show ?thesis by fastforce
    next
      case (Inr data)
      let ?acc = "setitem acc key (seek \<lparr>getvalue = data, tell = length data\<rparr> 0)"
      from Inr img have eq: "s3_images s3 b (key # objs) acc w = s3_images s3 b objs ?acc (did ?c w)"
        by (simp add: download_empty_eq)
      from Cons.IH [of ?acc "did ?c w"]
      obtain cs where cs: "snd (s3_images s3 b objs ?acc (did ?c w))
            = (did ?c w)\<lparr>calls := calls (did ?c w) @ cs\<rparr>"
          "\<forall>c\<in>set cs. \<exists>k\<in>set objs. is_image k \<and> c = Call_download_fileobj b k"
        by blast
      have "snd (s3_images s3 b (key # objs) acc w) = w\<lparr>calls := calls w @ (?c # cs)\<rparr>"
        using cs(1) eq by (simp add: did_as_update)
      moreover have "\<forall>c\<in>set (?c # cs). \<exists>k\<in>set (key # objs). is_image k \<and> c = Call_download_fileobj b k"
        using cs(2) img by auto
      ultimately show ?thesis by blast
    qed
  qed
qed

lemma s3_images_indep:
  "fst (s3_images s3 b objs acc w1) = fst (s3_images s3 b objs acc w2)"
proof (induction objs arbitrary: acc w1 w2)
  case Nil
  then show ?case by simp
next
  case (Cons key objs)
  show ?case
  proof (cases "s3_body s3 b key")
    case (Inl e)
    with Cons.IH [of acc w1 w2] show ?thesis
      by (simp add: download_empty_eq)
  next
    case (Inr data)
    with Cons.IH [of acc w1 w2]
      Cons.IH [of "setitem acc key (seek \<lparr>getvalue = data, tell = length data\<rparr> 0)"
        "did (Call_download_fileobj b key) w1" "did (Call_download_fileobj b key) w2"]
    show ?thesis
      by (simp add: download_empty_eq)
  qed
qed

lemma s3_images_map_of:
  "fst (s3_images s3 b objs acc w) = Inr d \<Longrightarrow>
     map_of d k =
       (if k \<in> set objs \<and> is_image k
        then Some \<lparr>getvalue = projr (s3_body s3 b k), tell = 0\<rparr> else map_of acc k)"
proof (induction objs arbitrary: acc w)
  case Nil
  then show ?case by simp
next
  case (Cons key objs)
  show ?case
  proof (cases "is_image key")
    case False
    with Cons.prems Cons.IH [of acc w] show ?thesis by auto
  next
    case img: True
    show ?thesis
    proof (cases "s3_body s3 b key")
      case (Inl e)
      with img Cons.prems show ?thesis by (simp add: download_empty_eq)
    next
      case (Inr data)
      let ?acc = "setitem acc key \<lparr>getvalue = data, tell = 0\<rparr>"
      from Inr img Cons.prems
      have "fst (s3_images s3 b objs ?acc (did (Call_download_fileobj b key) w)) = Inr d"
        by (simp add: download_empty_eq seek_def)
      from Cons.IH [OF this] Inr img show ?thesis
        by (auto simp: setitem_map_of)
    qed
  qed
qed

lemma s3_images_keys:
  "fst (s3_images s3 b objs acc w) = Inr d \<Longrightarrow>
     set (keys d) = set (keys acc) \<union> {k \<in> set objs. is_image k}"
proof (induction objs arbitrary: acc w)
  case Nil
  then show ?case by simp
next
  case (Cons key objs)
  show ?case
  proof (cases "is_image key")
    case False
    with Cons.prems Cons.IH [of acc w] show ?thesis by auto
  next
    case img: True
    show ?thesis
    proof (cases "s3_body s3 b key")
      case (Inl e)
      with img Cons.prems show ?thesis by (simp add: download_empty_eq)
    next
      case (Inr data)
      let ?acc = "setitem acc key \<lparr>getvalue = data, tell = 0\<rparr>"
      from Inr img Cons.prems
      have "fst (s3_images s3 b objs ?acc (did (Call_download_fileobj b key) w)) = Inr d"
        by (simp add: download_empty_eq seek_def)
      from Cons.IH [OF this] img show ?thesis
        by (auto simp: setitem_keys)
    qed
  qed
qed

lemma s3_images_fail:
  "k \<in> set objs \<Longrightarrow> is_image k \<Longrightarrow> isl (s3_body s3 b k) \<Longrightarrow>
     isl (fst (s3_images s3 b objs acc w))"
proof (induction objs arbitrary: acc w)
  case Nil
  then show ?case by simp
next
  case (Cons key objs)
  show ?case
  proof (cases "is_image key \<and> isl (s3_body s3 b key)")
    case True
    then show ?thesis
      by (auto simp: download_empty_eq split: sum.splits)
  next
    case False
    with Cons.prems have "k \<in> set objs" by auto
    from Cons.IH [OF this Cons.prems(2,3)] False show ?thesis
      by (auto simp: download_empty_eq split: sum.splits)
  qed
qed

subsection \<open>The MinIO loop\<close>

lemma minio_images_world:
  "\<exists>cs. snd (minio_images client b objs err acc w) = w\<lparr>calls := calls w @ cs\<rparr> \<and>
        (\<forall>c\<in>set cs. \<exists>k\<in>set objs. is_image k \<and> c = Call_fget_object b k)"
proof (induction objs arbitrary: acc w)
  case Nil
  have "snd (minio_images client b [] err acc w) = w\<lparr>calls := calls w @ []\<rparr>"
    by (cases err) simp_all
  then show ?case by fastforce
next
  case (Cons key objs)
  let ?c = "Call_fget_object b key"
  show ?case
  proof (cases "is_image key")
    case False
    with Cons.IH [of acc w] show ?thesis by auto
  next
    case img: True
    show ?thesis
    proof (cases "minio_fget client b key (BytesIO_of [])")
      case (Inl e)
      with img have "snd (minio_images client b (key # objs) err acc w)
          = w\<lparr>calls := calls w @ [?c]\<rparr>"
        by (simp add: fget_object_def did_as_update)
      with img show ?thesis by fastforce
    next
      case (Inr s)
      let ?acc = "setitem acc key (seek s 0)"
      from Inr img have eq: "minio_images client b (key # objs) err acc w
          = minio_images client b objs err ?acc (did ?c w)"
        by (simp add: fget_object_def)
      from Cons.IH [of ?acc "did ?c w"]
      obtain cs where cs: "snd (minio_images client b objs err ?acc (did ?c w))
            = (did ?c w)\<lparr>calls := calls (did ?c w) @ cs\<rparr>"
          "\<forall>c\<in>set cs. \<exists>k\<in>set objs. is_image k \<and> c = Call_fget_object b k"
        by blast
      have "snd (minio_images client b (key # objs) err acc w) = w\<lparr>calls := calls w @ (?c # cs)\<rparr>"
        using cs(1) eq by (simp add: did_as_update)
      moreover have "\<forall>c\<in>set (?c # cs). \<exists>k\<in>set (key # objs). is_image k \<and> c = Call_fget_object b k"
        using cs(2) img by auto
      ultimately show ?thesis by blast
    qed
  qed
qed

lemma minio_images_indep:
  "fst (minio_images client b objs err acc w1) = fst (minio_images client b objs err acc w2)"
proof (induction objs arbitrary: acc w1 w2)
  case Nil
  then show ?case by (cases err) simp_all
next
  case (Cons key objs)
  show ?case
  proof (cases "minio_fget client b key (BytesIO_of [])")
    case (Inl e)
    with Cons.IH [of acc w1 w2] show ?thesis
      by (simp add: fget_object_def)
  next
    case (Inr s)
    with Cons.IH [of acc w1 w2]
      Cons.IH [of "setitem acc key (seek s 0)"
        "did (Call_fget_object b key) w1" "did (Call_fget_object b key) w2"]
    show ?thesis
      by (simp add: fget_object_def)
  qed
qed

lemma minio_images_keys:
  "fst (minio_images client b objs err acc w) = Inr d \<Longrightarrow>
     set (keys d) = set (keys acc) \<union> {k \<in> set objs. is_image k}"
proof (induction objs arbitrary: acc w)
  case Nil
  then show ?case by (cases err) simp_all
next
  case (Cons key objs)
  show ?case
  proof (cases "is_image key")
    case False
    with Cons.prems Cons.IH [of acc w] show ?thesis by auto
  next
    case img: True
    show ?thesis
    proof (cases "minio_fget client b key (BytesIO_of [])")
      case (Inl e)
      with img Cons.prems show ?thesis by (simp add: fget_object_def)
    next
      case (Inr s)
      from Inr img Cons.prems
      have "fst (minio_images client b objs err (setitem acc key (seek s 0))
              (did (Call_fget_object b key) w)) = Inr d"
        by (simp add: fget_object_def)
      from Cons.IH [OF this] img show ?thesis
        by (auto simp: setitem_keys)
    qed
  qed
qed

lemma minio_images_listing_fail:
  "isl (fst (minio_images client b objs (Some e) acc w))"
proof (induction objs arbitrary: acc w)
  case Nil
  then show ?case by simp
next
  case (Cons key objs)
  then show ?case
    by (auto simp: fget_object_def split: sum.splits)
qed

lemma minio_images_fail:
  "k \<in> set objs \<Longrightarrow> is_image k \<Longrightarrow> isl (minio_fget client b k (BytesIO_of [])) \<Longrightarrow>
     isl (fst (minio_images client b objs err acc w))"
proof (induction objs arbitrary: acc w)
  case Nil
  then show ?case by simp
next
  case (Cons key objs)
  show ?case
  proof (cases "is_image key \<and> isl (minio_fget client b key (BytesIO_of []))")
    case True
    then show ?thesis
      by (auto simp: fget_object_def split: sum.splits)
  next
    case False
    with Cons.prems have "k \<in> set objs" by auto
    from Cons.IH [OF this Cons.prems(2,3)] False show ?thesis
      by (auto simp: fget_object_def split: sum.splits)
  qed
qed

lemma minio_images_py:
  "minio_fget client = minio_py_fget \<Longrightarrow> k \<in> set objs \<Longrightarrow> is_image k \<Longrightarrow>
     fst (minio_images client b objs err acc w) = Inl TypeError"
  by (induction objs arbitrary: w) (auto simp: fget_object_def minio_py_fget_def)

subsection \<open>The strategies, unfolded\<close>

lemma load_from_s3_ready:
  assumes "s3_ready self w s3 bucket"
  shows "load_from_s3 self w =
     (case s3_pages s3 bucket of
        Inl e \<Rightarrow> (Inl e, did (Call_list_objects_v2 bucket) (did Call_boto3_client w))
      | Inr pages \<Rightarrow>
          s3_images s3 bucket (case pages of [] \<Rightarrow> [] | page # _ \<Rightarrow> page) []
            (did (Call_list_objects_v2 bucket) (did Call_boto3_client w)))"
proof -
  from assms obtain cfg ak sk rg where c: "s3_config self = Some cfg"
    "map_of cfg ''access_key'' = Some ak" "map_of cfg ''secret_key'' = Some sk"
    "map_of cfg ''region'' = Some rg" "map_of cfg ''bucket'' = Some bucket"
    "boto3_client w ak sk rg = Inr s3"
    by (auto simp: s3_ready_def split: option.splits)
  from c(2) have ne: "cfg \<noteq> []" by auto
  show ?thesis
    using c ne
    by (simp add: load_from_s3_def getitem_def list_objects_v2_def get_Contents_def
        split: sum.splits list.splits)
qed

lemma load_from_s3_cases:
  "(\<exists>e. load_from_s3 self w = (Inl e, w)) \<or>
   (\<exists>e. load_from_s3 self w = (Inl e, did Call_boto3_client w)) \<or>
   (\<exists>s3 bucket. s3_ready self w s3 bucket)"
  by (auto simp: load_from_s3_def s3_ready_def getitem_def Let_def
      split: option.splits sum.splits)

lemma load_from_minio_ready:
  assumes "minio_ready self w client bucket"
  shows "load_from_minio self w =
     minio_images client bucket (fst (minio_names client bucket)) (snd (minio_names client bucket)) []
       (did (Call_list_objects bucket True) (did Call_Minio w))"
proof -
  from assms obtain cfg ep ak sk where c: "minio_config self = Some cfg"
    "map_of cfg ''endpoint'' = Some ep" "map_of cfg ''access_key'' = Some ak"
    "map_of cfg ''secret_key'' = Some sk" "map_of cfg ''bucket'' = Some bucket"
    "Minio w ep ak sk (get_default cfg ''secure'' (Bool False)) = Inr client"
    by (auto simp: minio_ready_def split: option.splits)
  from c(2) have ne: "cfg \<noteq> []" by auto
  show ?thesis
    using c ne
    by (simp add: load_from_minio_def getitem_def list_objects_def split: prod.splits)
qed

lemma load_from_minio_cases:
  "(\<exists>e. load_from_minio self w = (Inl e, w)) \<or>
   (\<exists>e. load_from_minio self w = (Inl e, did Call_Minio w)) \<or>
   (\<exists>client bucket. minio_ready self w client bucket)"
  by (auto simp: load_from_minio_def minio_ready_def getitem_def Let_def
      split: option.splits sum.splits)

lemma load_from_local_eq:
  "load_from_local self w =
     (case fs w (source self) of
        None \<Rightarrow> (Inl (ValueError (''Local path does not exist: '' @ source self)),
                  did (Call_exists (source self)) w)
      | Some (File data) \<Rightarrow> (Inl NotADirectoryError,
                  did (Call_listdir (source self)) (did (Call_exists (source self)) w))
      | Some Denied \<Rightarrow> (Inl PermissionError,
                  did (Call_listdir (source self)) (did (Call_exists (source self)) w))
      | Some (Dir names) \<Rightarrow>
          local_images (source self) (filter is_image names) []
            (did (Call_listdir (source self)) (did (Call_exists (source self)) w)))"
  by (simp add: load_from_local_def os_path_exists_def os_listdir_def
      split: option.splits node.splits)

subsection \<open>Keys of a successful load\<close>

lemma load_from_local_keys:
  assumes "fst (load_from_local self w) = Inr d" "k \<in> set (keys d)"
  shows "is_image k"
proof -
  from assms(1) obtain names where
    "fst (local_images (source self) (filter is_image names) []
        (did (Call_listdir (source self)) (did (Call_exists (source self)) w))) = Inr d"
    by (auto simp: load_from_local_eq split: option.splits node.splits)
  from local_images_keys [OF this] assms(2) show ?thesis
    by (auto simp: keys_def is_image_join)
qed

lemma load_from_s3_keys:
  assumes "fst (load_from_s3 self w) = Inr d" "k \<in> set (keys d)"
  shows "is_image k"
proof -
  from load_from_s3_cases [of self w] assms(1)
  obtain s3 bucket where r: "s3_ready self w s3 bucket" by auto
  from assms(1) obtain objs w' where "fst (s3_images s3 bucket objs [] w') = Inr d"
    by (auto simp: load_from_s3_ready [OF r] split: sum.splits)
  from s3_images_keys [OF this] assms(2) show ?thesis
    by (auto simp: keys_def)
qed

lemma load_from_minio_keys:
  assumes "fst (load_from_minio self w) = Inr d" "k \<in> set (keys d)"
  shows "is_image k"
proof -
  from load_from_minio_cases [of self w] assms(1)
  obtain client bucket where r: "minio_ready self w client bucket" by auto
  from assms(1) obtain objs err w' where "fst (minio_images client bucket objs err [] w') = Inr d"
    by (auto simp: load_from_minio_ready [OF r])
  from minio_images_keys [OF this] assms(2) show ?thesis
    by (auto simp: keys_def)
qed

lemma load_images_keys:
  assumes "fst (load_images self w) = Inr d" "k \<in> set (keys d)"
  shows "is_image k"
  using assms load_from_local_keys [of self w d k] load_from_s3_keys [of self w d k]
    load_from_minio_keys [of self w d k]
  by (auto simp: load_images_def split: if_splits)

subsection \<open>The calls of a load\<close>

lemma new_calls_update [simp]: "new_calls w (w\<lparr>calls := calls w @ cs\<rparr>) = cs"
  by (simp add: new_calls_def)

lemma load_from_local_world:
  "\<exists>cs. snd (load_from_local self w) = w\<lparr>calls := calls w @ cs\<rparr> \<and>
        (\<forall>c\<in>set cs. \<forall>n. fetched c = Some n \<longrightarrow> is_image n)"
proof -
  let ?e = "Call_exists (source self)" and ?l = "Call_listdir (source self)"
  consider (none) "fs w (source self) = None"
    | (nodir) "snd (load_from_local self w) = did ?l (did ?e w)"
    | (dir) names where "fs w (source self) = Some (Dir names)"
    by (cases "fs w (source self)"; cases "the (fs w (source self))")
      (auto simp: load_from_local_eq)
  then show ?thesis
  proof cases
    case none
    then have "snd (load_from_local self w) = w\<lparr>calls := calls w @ [?e]\<rparr>"
      by (simp add: load_from_local_eq did_as_update)
    then show ?thesis by fastforce
  next
    case nodir
    then have "snd (load_from_local self w) = w\<lparr>calls := calls w @ [?e, ?l]\<rparr>"
      by (simp add: did_as_update)
    then show ?thesis by fastforce
  next
    case dir
    let ?w = "did ?l (did ?e w)"
    from local_images_world [of "source self" "filter is_image names" "[]" ?w]
    obtain cs where cs: "snd (local_images (source self) (filter is_image names) [] ?w)
          = ?w\<lparr>calls := calls ?w @ cs\<rparr>"
        "\<forall>c\<in>set cs. \<exists>f\<in>set (filter is_image names). c = Call_open (join (source self) f)"
      by blast
    from dir cs(1) have "snd (load_from_local self w) = w\<lparr>calls := calls w @ ([?e, ?l] @ cs)\<rparr>"
      by (simp add: load_from_local_eq did_as_update)
    moreover have "is_image n" if "c \<in> set cs" "fetched c = Some n" for c n
    proof -
      from cs(2) that(1) obtain f where "is_image f" "c = Call_open (join (source self) f)"
        by auto
      with that(2) is_image_join [of "source self" f] show ?thesis by auto
    qed
    then have "\<forall>c\<in>set ([?e, ?l] @ cs). \<forall>n. fetched c = Some n \<longrightarrow> is_image n"
      by auto
    ultimately show ?thesis by blast
  qed
qed

lemma load_from_s3_world:
  "\<exists>cs. snd (load_from_s3 self w) = w\<lparr>calls := calls w @ cs\<rparr> \<and>
        (\<forall>c\<in>set cs. \<forall>n. fetched c = Some n \<longrightarrow> is_image n)"
proof -
  from load_from_s3_cases [of self w]
  consider (a) "snd (load_from_s3 self w) = w"
    | (b) "snd (load_from_s3 self w) = did Call_boto3_client w"
    | (c) s3 bucket where "s3_ready self w s3 bucket"
    by auto
  then show ?thesis
  proof cases
    case a
    then have "snd (load_from_s3 self w) = w\<lparr>calls := calls w @ []\<rparr>" by simp
    then show ?thesis by fastforce
  next
    case b
    then have "snd (load_from_s3 self w) = w\<lparr>calls := calls w @ [Call_boto3_client]\<rparr>"
      by (simp add: did_as_update)
    then show ?thesis by fastforce
  next
    case c
    let ?w = "did (Call_list_objects_v2 bucket) (did Call_boto3_client w)"
    let ?pre = "[Call_boto3_client, Call_list_objects_v2 bucket]"
    show ?thesis
    proof (cases "s3_pages s3 bucket")
      case (Inl e)
      then have "snd (load_from_s3 self w) = w\<lparr>calls := calls w @ ?pre\<rparr>"
        by (simp add: load_from_s3_ready [OF c] did_as_update)
      then show ?thesis by fastforce
    next
      case (Inr pages)
      let ?objs = "case pages of [] \<Rightarrow> [] | page # _ \<Rightarrow> page"
      from s3_images_world [of s3 bucket ?objs "[]" ?w]
      obtain cs where cs: "snd (s3_images s3 bucket ?objs [] ?w) = ?w\<lparr>calls := calls ?w @ cs\<rparr>"
          "\<forall>c\<in>set cs. \<exists>k\<in>set ?objs. is_image k \<and> c = Call_download_fileobj bucket k"
        by blast
      from Inr cs(1) have "snd (load_from_s3 self w) = w\<lparr>calls := calls w @ (?pre @ cs)\<rparr>"
        by (simp add: load_from_s3_ready [OF c] did_as_update)
      moreover have "\<forall>c\<in>set (?pre @ cs). \<forall>n. fetched c = Some n \<longrightarrow> is_image n"
        using cs(2) by auto
      ultimately show ?thesis by blast
    qed
  qed
qed

lemma load_from_minio_world:
  "\<exists>cs. snd (load_from_minio self w) = w\<lparr>calls := calls w @ cs\<rparr> \<and>
        (\<forall>c\<in>set cs. \<forall>n. fetched c = Some n \<longrightarrow> is_image n)"
proof -
  from load_from_minio_cases [of self w]
  consider (a) "snd (load_from_minio self w) = w"
    | (b) "snd (load_from_minio self w) = did Call_Minio w"
    | (c) client bucket where "minio_ready self w client bucket"
    by auto
  then show ?thesis
  proof cases
    case a
    then have "snd (load_from_minio self w) = w\<lparr>calls := calls w @ []\<rparr>" by simp
    then show ?thesis by fastforce
  next
    case b
    then have "snd (load_from_minio self w) = w\<lparr>calls := calls w @ [Call_Minio]\<rparr>"
      by (simp add: did_as_update)
    then show ?thesis by fastforce
  next
    case c
    let ?w = "did (Call_list_objects bucket True) (did Call_Minio w)"
    let ?pre = "[Call_Minio, Call_list_objects bucket True]"
    let ?names = "fst (minio_names client bucket)" and ?err = "snd (minio_names client bucket)"
    from minio_images_world [of client bucket ?names ?err "[]" ?w]
    obtain cs where cs: "snd (minio_images client bucket ?names ?err [] ?w)
          = ?w\<lparr>calls := calls ?w @ cs\<rparr>"
        "\<forall>c\<in>set cs. \<exists>k\<in>set ?names. is_image k \<and> c = Call_fget_object bucket k"
      by blast
    from cs(1) have "snd (load_from_minio self w) = w\<lparr>calls := calls w @ (?pre @ cs)\<rparr>"
      by (simp add: load_from_minio_ready [OF c] did_as_update)
    moreover have "\<forall>c\<in>set (?pre @ cs). \<forall>n. fetched c = Some n \<longrightarrow> is_image n"
      using cs(2) by auto
    ultimately show ?thesis by blast
  qed
qed

lemma load_images_world:
  "\<exists>cs. snd (load_images self w) = w\<lparr>calls := calls w @ cs\<rparr> \<and>
        (\<forall>c\<in>set cs. \<forall>n. fetched c = Some n \<longrightarrow> is_image n)"
  using load_from_local_world [of self w] load_from_s3_world [of self w]
    load_from_minio_world [of self w]
  by (simp add: load_images_def)

subsection \<open>The result does not depend on the log\<close>

lemma load_from_local_indep:
  assumes "same_origin w1 w2"
  shows "fst (load_from_local self w1) = fst (load_from_local self w2)"
proof -
  from assms have f: "fs w1 = fs w2" by (simp add: same_origin_def)
  have "fst (local_images (source self) fl []
          (did (Call_listdir (source self)) (did (Call_exists (source self)) w1)))
      = fst (local_images (source self) fl []
          (did (Call_listdir (source self)) (did (Call_exists (source self)) w2)))" for fl
    by (rule local_images_indep) (simp add: f)
  then show ?thesis
    by (simp add: load_from_local_eq f split: option.splits node.splits)
qed

lemma load_from_s3_indep:
  assumes "same_origin w1 w2"
  shows "fst (load_from_s3 self w1) = fst (load_from_s3 self w2)"
proof -
  from assms have b: "boto3_client w1 = boto3_client w2" by (simp add: same_origin_def)
  show ?thesis
    unfolding load_from_s3_def
    by (auto simp: b Let_def list_objects_v2_def split: option.splits sum.splits list.splits
        intro: s3_images_indep)
qed

lemma load_from_minio_indep:
  assumes "same_origin w1 w2"
  shows "fst (load_from_minio self w1) = fst (load_from_minio self w2)"
proof -
  from assms have b: "Minio w1 = Minio w2" by (simp add: same_origin_def)
  show ?thesis
    unfolding load_from_minio_def
    by (auto simp: b Let_def list_objects_def split: option.splits sum.splits prod.splits
        intro: minio_images_indep)
qed

lemma load_images_indep:
  "same_origin w1 w2 \<Longrightarrow> fst (load_images self w1) = fst (load_images self w2)"
  by (simp add: load_images_def load_from_local_indep load_from_s3_indep load_from_minio_indep)

lemma load_images_same_origin: "same_origin w (snd (load_images self w))"
proof -
  from load_images_world [of self w] obtain cs
    where "snd (load_images self w) = w\<lparr>calls := calls w @ cs\<rparr>" by blast
  then show ?thesis by (simp add: same_origin_def)
qed

subsection \<open>The calls of the S3 strategy\<close>

lemma first_page_eq: "(case pages of [] \<Rightarrow> [] | page # _ \<Rightarrow> page) = concat (take 1 pages)"
  by (cases pages) simp_all

lemma load_from_s3_ready_calls:
  assumes "s3_ready self w s3 bucket"
  shows "\<exists>cs. new_calls w (snd (load_from_s3 self w))
             = [Call_boto3_client, Call_list_objects_v2 bucket] @ cs \<and>
           (\<forall>c\<in>set cs. \<not> is_listing c)"
proof -
  let ?w = "did (Call_list_objects_v2 bucket) (did Call_boto3_client w)"
  let ?pre = "[Call_boto3_client, Call_list_objects_v2 bucket]"
  show ?thesis
  proof (cases "s3_pages s3 bucket")
    case (Inl e)
    then have "snd (load_from_s3 self w) = w\<lparr>calls := calls w @ (?pre @ [])\<rparr>"
      by (simp add: load_from_s3_ready [OF assms] did_as_update)
    then have "new_calls w (snd (load_from_s3 self w)) = ?pre @ []"
      by (simp only: new_calls_update)
    then show ?thesis by fastforce
  next
    case (Inr pages)
    let ?objs = "case pages of [] \<Rightarrow> [] | page # _ \<Rightarrow> page"
    from s3_images_world [of s3 bucket ?objs "[]" ?w]
    obtain cs where cs: "snd (s3_images s3 bucket ?objs [] ?w) = ?w\<lparr>calls := calls ?w @ cs\<rparr>"
        "\<forall>c\<in>set cs. \<exists>k\<in>set ?objs. is_image k \<and> c = Call_download_fileobj bucket k"
      by blast
    from Inr cs(1) have "snd (load_from_s3 self w) = w\<lparr>calls := calls w @ (?pre @ cs)\<rparr>"
      by (simp add: load_from_s3_ready [OF assms] did_as_update)
    then have "new_calls w (snd (load_from_s3 self w)) = ?pre @ cs"
      by (simp only: new_calls_update)
    moreover have "\<forall>c\<in>set cs. \<not> is_listing c" using cs(2) by auto
    ultimately show ?thesis by blast
  qed
qed

section \<open>The properties of the specification\<close>

text \<open>
  C1. Every key of a mapping that \<open>load_images\<close> returns has a lowercased suffix among
  \<open>.png\<close>, \<open>.jpg\<close>, \<open>.jpeg\<close>, \<open>.bmp\<close>. A name with any other suffix is never a key,
  neither as it stands (an object key) nor joined to the source (a directory entry). Such
  an object is skipped and not touched: among the calls the load makes, every one that
  reads the bytes of an object (\<open>open\<close>, \<open>download_fileobj\<close>, \<open>fget_object\<close>) is on a name
  that passes the filter, so an object with another suffix cannot raise.
\<close>

theorem only_images_loaded:
  "(\<forall>d. fst (load_images self w) = Inr d \<longrightarrow>
      (\<forall>k\<in>set (keys d). endswith (lower k) [''.png'', ''.jpg'', ''.jpeg'', ''.bmp'']) \<and>
      (\<forall>name. \<not> endswith (lower name) [''.png'', ''.jpg'', ''.jpeg'', ''.bmp''] \<longrightarrow>
         name \<notin> set (keys d) \<and> join (source self) name \<notin> set (keys d))) \<and>
   (\<forall>c\<in>set (new_calls w (snd (load_images self w))).
      \<forall>n. fetched c = Some n \<longrightarrow> is_image n)"
proof -
  have img: "is_image k = endswith (lower k) [''.png'', ''.jpg'', ''.jpeg'', ''.bmp'']" for k
    by (simp add: is_image_def image_exts_def)
  have a: "is_image k" if "fst (load_images self w) = Inr d" "k \<in> set (keys d)" for d k
    using that by (rule load_images_keys)
  have b: "name \<notin> set (keys d) \<and> join (source self) name \<notin> set (keys d)"
    if "fst (load_images self w) = Inr d" "\<not> is_image name" for d name
    using a [OF that(1)] that(2) is_image_join [of "source self" name] by blast
  from load_images_world [of self w] obtain cs
    where cs: "snd (load_images self w) = w\<lparr>calls := calls w @ cs\<rparr>"
      "\<forall>c\<in>set cs. \<forall>n. fetched c = Some n \<longrightarrow> is_image n"
    by blast
  have c: "\<forall>c\<in>set (new_calls w (snd (load_images self w))). \<forall>n. fetched c = Some n \<longrightarrow> is_image n"
    using cs by simp
  from a b c show ?thesis unfolding img [symmetric] by blast
qed

theorem only_images_loaded_witness:
  "fst (load_images (init ''data'' None None) demo_world)
     = Inr [(''data/a.PNG'', \<lparr>getvalue = [1, 2, 3], tell = 0\<rparr>),
            (''data/b.jpeg'', \<lparr>getvalue = [4], tell = 0\<rparr>)] \<and>
   endswith (lower ''data/a.PNG'') [''.png'', ''.jpg'', ''.jpeg'', ''.bmp''] \<and>
   endswith (lower ''data/b.jpeg'') [''.png'', ''.jpg'', ''.jpeg'', ''.bmp''] \<and>
   join ''data'' ''notes.txt''
     \<notin> set (keys [(''data/a.PNG'', \<lparr>getvalue = [1, 2, 3], tell = 0\<rparr>),
                      (''data/b.jpeg'', \<lparr>getvalue = [4], tell = 0\<rparr>)]) \<and>
   fs demo_world ''data/notes.txt'' = Some Denied \<and>
   new_calls demo_world (snd (load_images (init ''data'' None None) demo_world))
     = [Call_exists ''data'', Call_listdir ''data'', Call_open ''data/a.PNG'',
        Call_open ''data/b.jpeg'']"
proof -
  let ?self = "init ''data'' None None"
  let ?d = "[(''data/a.PNG'', \<lparr>getvalue = [1, 2, 3], tell = 0\<rparr>),
             (''data/b.jpeg'', \<lparr>getvalue = [4], tell = 0\<rparr>)]"
  have ev: "fst (load_images ?self demo_world) = Inr ?d"
    by (simp add: load_images_def load_from_local_eq load_file_eq demo_eval str_eval setitem_def)
  have nt: "\<not> endswith (lower ''notes.txt'') [''.png'', ''.jpg'', ''.jpeg'', ''.bmp'']"
    by (simp add: str_eval)
  have src: "source ?self = ''data''" by (simp add: init_def)
  from only_images_loaded [of ?self demo_world] ev nt
  have "(\<forall>k\<in>set (keys ?d). endswith (lower k) [''.png'', ''.jpg'', ''.jpeg'', ''.bmp'']) \<and>
        join ''data'' ''notes.txt'' \<notin> set (keys ?d)"
    unfolding src by blast
  moreover have "fs demo_world ''data/notes.txt'' = Some Denied"
    by (simp add: demo_eval)
  moreover have "new_calls demo_world (snd (load_images ?self demo_world))
     = [Call_exists ''data'', Call_listdir ''data'', Call_open ''data/a.PNG'',
        Call_open ''data/b.jpeg'']"
    by (simp add: load_images_def load_from_local_eq load_file_eq demo_eval str_eval setitem_def
        new_calls_def did_def)
  ultimately show ?thesis using ev by (simp add: keys_def)
qed

text \<open>
  C2. \<open>load_images\<close> dispatches on the prefix of \<open>source\<close> and on nothing else: a source
  starting with \<open>s3://\<close> runs the S3 strategy, one starting with \<open>minio://\<close> the MinIO
  strategy, and every other source the local strategy. The three cases cover every string,
  so no source is rejected as an unknown scheme.
\<close>

theorem load_images_dispatch:
  "(startswith (source self) ''s3://'' \<longrightarrow> load_images self w = load_from_s3 self w) \<and>
   (startswith (source self) ''minio://'' \<longrightarrow> load_images self w = load_from_minio self w) \<and>
   (\<not> startswith (source self) ''s3://'' \<and> \<not> startswith (source self) ''minio://''
      \<longrightarrow> load_images self w = load_from_local self w)"
  by (simp add: load_images_def minio_not_s3)

theorem load_images_dispatch_witness:
  "load_images (init ''s3://imgs'' None None) demo_world
     = load_from_s3 (init ''s3://imgs'' None None) demo_world \<and>
   load_images (init ''minio://imgs'' None None) demo_world
     = load_from_minio (init ''minio://imgs'' None None) demo_world \<and>
   load_images (init ''gcs://imgs'' None None) demo_world
     = load_from_local (init ''gcs://imgs'' None None) demo_world \<and>
   fst (load_images (init ''gcs://imgs'' None None) demo_world)
     = Inl (ValueError ''Local path does not exist: gcs://imgs'')"
  using load_images_dispatch [of "init ''s3://imgs'' None None" demo_world]
    load_images_dispatch [of "init ''minio://imgs'' None None" demo_world]
    load_images_dispatch [of "init ''gcs://imgs'' None None" demo_world]
  by (simp add: init_def startswith_def load_from_local_def os_path_exists_def demo_world_def
      demo_fs_def)

text \<open>
  C3. Let the source select the local strategy and name an existing directory whose
  entries are \<open>names\<close> (distinct, none containing a slash, as \<open>os.listdir\<close> returns them),
  and let every entry that passes the filter be a readable regular file, \<open>content n\<close> being
  the bytes of entry \<open>n\<close>. Then \<open>load_images\<close> returns a mapping with one entry per
  matching name and no other: as many entries as matching names, keyed by
  \<open>os.path.join(source, name)\<close>, each stream holding exactly the bytes of its file and
  standing at position 0. Nothing is asked of the entries that do not match.
\<close>

theorem local_directory_loaded:
  assumes "\<not> startswith (source self) ''s3://''" "\<not> startswith (source self) ''minio://''"
    and "fs w (source self) = Some (Dir names)"
    and "distinct names" "\<forall>n\<in>set names. CHR ''/'' \<notin> set n"
    and "\<forall>n\<in>set names. is_image n \<longrightarrow> fs w (join (source self) n) = Some (File (content n))"
  shows "\<exists>d. fst (load_images self w) = Inr d \<and>
           d = map (\<lambda>n. (join (source self) n, \<lparr>getvalue = content n, tell = 0\<rparr>))
                 (filter is_image names) \<and>
           length d = length (filter is_image names) \<and>
           distinct (keys d) \<and>
           (\<forall>n\<in>set names. is_image n \<longrightarrow>
              map_of d (join (source self) n) = Some \<lparr>getvalue = content n, tell = 0\<rparr>)"
proof -
  let ?src = "source self" and ?fl = "filter is_image names"
  let ?w = "did (Call_listdir ?src) (did (Call_exists ?src) w)"
  let ?d = "map (\<lambda>n. (join ?src n, \<lparr>getvalue = content n, tell = 0\<rparr>)) ?fl"
  have inj: "inj_on (join ?src) (set names)"
    using assms(5) by (auto intro!: inj_onI dest: join_inject)
  then have dist: "distinct (map (join ?src) ?fl)"
    using assms(4) by (auto simp: distinct_map intro: inj_on_subset)
  have "fst (local_images ?src ?fl [] ?w) = Inr ([] @ ?d)"
  proof (rule local_images_ok)
    show "\<forall>f\<in>set ?fl. fs ?w (join ?src f) = Some (File (content f))"
      using assms(6) by simp
    show "distinct (map (join ?src) ?fl)" by (rule dist)
    show "\<forall>f\<in>set ?fl. join ?src f \<notin> set (keys [])" by (simp add: keys_def)
  qed
  then have res: "fst (load_images self w) = Inr ?d"
    using assms(1,2,3) by (simp add: load_images_def load_from_local_eq)
  have keys: "keys ?d = map (join ?src) ?fl" by (simp add: keys_def comp_def)
  have look: "map_of ?d (join ?src n) = Some \<lparr>getvalue = content n, tell = 0\<rparr>"
    if "n \<in> set names" "is_image n" for n
  proof -
    have "(join ?src n, \<lparr>getvalue = content n, tell = 0\<rparr>) \<in> set ?d"
      using that by auto
    moreover have "distinct (map fst ?d)" using dist by (simp add: comp_def)
    ultimately show ?thesis by (rule map_of_is_SomeI [rotated])
  qed
  from res keys dist look show ?thesis by simp
qed

theorem local_directory_loaded_witness:
  "fst (load_images (init ''data'' None None) demo_world)
     = Inr [(''data/a.PNG'', \<lparr>getvalue = [1, 2, 3], tell = 0\<rparr>),
            (''data/b.jpeg'', \<lparr>getvalue = [4], tell = 0\<rparr>)]"
proof -
  let ?self = "init ''data'' None None"
  let ?content = "\<lambda>n. if n = ''a.PNG'' then [1, 2, 3] else [4 :: 8 word]"
  let ?names = "[''a.PNG'', ''notes.txt'', ''b.jpeg'']"
  have "\<not> startswith (source ?self) ''s3://''" "\<not> startswith (source ?self) ''minio://''"
    and "fs demo_world (source ?self) = Some (Dir ?names)"
    and "distinct ?names" "\<forall>n\<in>set ?names. CHR ''/'' \<notin> set n"
    and "\<forall>n\<in>set ?names. is_image n \<longrightarrow>
           fs demo_world (join (source ?self) n) = Some (File (?content n))"
    by (simp_all add: demo_eval str_eval)
  from local_directory_loaded [OF this]
  show ?thesis by (simp add: init_def str_eval)
qed

text \<open>
  C4. When the source selects S3 or MinIO and the configuration of that backend is absent
  (\<open>None\<close>), \<open>load_images\<close> raises the ValueError of the missing configuration and
  returns no mapping. The world it returns is the world it was given: the log of external
  calls is unchanged, so no client was constructed and no request was made.
\<close>

theorem remote_config_absent:
  "(startswith (source self) ''s3://'' \<and> s3_config self = None \<longrightarrow>
      load_images self w
        = (Inl (ValueError ''S3 configuration is required for loading from S3.''), w)) \<and>
   (startswith (source self) ''minio://'' \<and> minio_config self = None \<longrightarrow>
      load_images self w
        = (Inl (ValueError ''MinIO configuration is required for loading from MinIO.''), w))"
  by (simp add: load_images_def minio_not_s3 load_from_s3_def load_from_minio_def)

theorem remote_config_absent_witness:
  "load_images (init ''s3://imgs'' (Some (demo_minio_config ''imgs'')) None) demo_world
     = (Inl (ValueError ''S3 configuration is required for loading from S3.''), demo_world) \<and>
   load_images (init ''minio://imgs'' None (Some (demo_s3_config ''imgs''))) demo_world
     = (Inl (ValueError ''MinIO configuration is required for loading from MinIO.''), demo_world)"
  using remote_config_absent [of "init ''s3://imgs'' (Some (demo_minio_config ''imgs'')) None" demo_world]
    remote_config_absent [of "init ''minio://imgs'' None (Some (demo_s3_config ''imgs''))" demo_world]
  by (simp add: init_def startswith_def)

text \<open>
  C5. When the source selects the local strategy and names a path that does not exist,
  \<open>load_images\<close> raises the ValueError of the missing path and returns no mapping; the
  only external call made is the existence test.
\<close>

theorem local_path_missing:
  "\<not> startswith (source self) ''s3://'' \<and> \<not> startswith (source self) ''minio://'' \<and>
   fs w (source self) = None \<longrightarrow>
     load_images self w
       = (Inl (ValueError (''Local path does not exist: '' @ source self)),
          did (Call_exists (source self)) w)"
  by (simp add: load_images_def load_from_local_def os_path_exists_def)

theorem local_path_missing_witness:
  "load_images (init ''nowhere'' None None) demo_world
     = (Inl (ValueError ''Local path does not exist: nowhere''),
        did (Call_exists ''nowhere'') demo_world)"
  using local_path_missing [of "init ''nowhere'' None None" demo_world]
  by (simp add: init_def startswith_def demo_world_def demo_fs_def)

text \<open>
  C6. A load in which the listing fails, or the streaming of one candidate fails, fails as
  a whole: the result is an exception (\<open>Inl\<close>), which carries no mapping, so the entries
  streamed before the failure are lost. One conjunct per way to fail: the local listing,
  the read of a matching local file, the S3 listing, the download of a matching key of the
  first page, and for MinIO the listing or the fetch of a matching object. A failing
  listing is re-raised as it is.
\<close>

theorem load_images_all_or_nothing:
  "(\<not> startswith (source self) ''s3://'' \<and> \<not> startswith (source self) ''minio://'' \<and>
    fs w (source self) \<noteq> None \<and> fst (os_listdir (source self) w) = Inl e
      \<longrightarrow> fst (load_images self w) = Inl e) \<and>
   (\<not> startswith (source self) ''s3://'' \<and> \<not> startswith (source self) ''minio://'' \<and>
    fst (os_listdir (source self) w) = Inr names \<and> n \<in> set names \<and> is_image n \<and>
    isl (fst (open_read (join (source self) n) w))
      \<longrightarrow> isl (fst (load_images self w))) \<and>
   (startswith (source self) ''s3://'' \<and> s3_ready self w s3 bucket \<and>
    s3_pages s3 bucket = Inl e'
      \<longrightarrow> fst (load_images self w) = Inl e') \<and>
   (startswith (source self) ''s3://'' \<and> s3_ready self w s3 bucket \<and>
    s3_pages s3 bucket = Inr pages \<and> k \<in> set (concat (take 1 pages)) \<and> is_image k \<and>
    isl (s3_body s3 bucket k)
      \<longrightarrow> isl (fst (load_images self w))) \<and>
   (startswith (source self) ''minio://'' \<and> minio_ready self w client mbucket \<and>
    (snd (minio_names client mbucket) \<noteq> None \<or>
     (\<exists>key\<in>set (fst (minio_names client mbucket)).
        is_image key \<and> isl (minio_fget client mbucket key (BytesIO_of []))))
      \<longrightarrow> isl (fst (load_images self w)))"
proof (intro conjI impI; elim conjE)
  assume "\<not> startswith (source self) ''s3://''" "\<not> startswith (source self) ''minio://''"
    "fs w (source self) \<noteq> None" "fst (os_listdir (source self) w) = Inl e"
  then show "fst (load_images self w) = Inl e"
    by (auto simp: load_images_def load_from_local_eq os_listdir_def
        split: option.splits node.splits)
next
  let ?src = "source self"
  let ?w = "did (Call_listdir ?src) (did (Call_exists ?src) w)"
  assume l: "\<not> startswith ?src ''s3://''" "\<not> startswith ?src ''minio://''"
    and ls: "fst (os_listdir ?src w) = Inr names"
    and n: "n \<in> set names" "is_image n" "isl (fst (open_read (join ?src n) w))"
  from ls have dir: "fs w ?src = Some (Dir names)"
    by (auto simp: os_listdir_def split: option.splits node.splits)
  from n(3) have "isl (fst (open_read (join ?src n) ?w))"
    by (simp add: open_read_def)
  with n(1,2) have "isl (fst (local_images ?src (filter is_image names) [] ?w))"
    by (intro local_images_fail [of n]) simp_all
  with l dir show "isl (fst (load_images self w))"
    by (simp add: load_images_def load_from_local_eq)
next
  assume "startswith (source self) ''s3://''" "s3_ready self w s3 bucket"
    "s3_pages s3 bucket = Inl e'"
  then show "fst (load_images self w) = Inl e'"
    by (simp add: load_images_def load_from_s3_ready)
next
  let ?w = "did (Call_list_objects_v2 bucket) (did Call_boto3_client w)"
  assume s: "startswith (source self) ''s3://''" "s3_ready self w s3 bucket"
    and p: "s3_pages s3 bucket = Inr pages"
    and k: "k \<in> set (concat (take 1 pages))" "is_image k" "isl (s3_body s3 bucket k)"
  from k have "isl (fst (s3_images s3 bucket (concat (take 1 pages)) [] ?w))"
    by (rule s3_images_fail)
  with s p show "isl (fst (load_images self w))"
    by (simp add: load_images_def load_from_s3_ready first_page_eq)
next
  assume m: "startswith (source self) ''minio://''" "minio_ready self w client mbucket"
    and f: "snd (minio_names client mbucket) \<noteq> None \<or>
            (\<exists>key\<in>set (fst (minio_names client mbucket)).
               is_image key \<and> isl (minio_fget client mbucket key (BytesIO_of [])))"
  from m(1) have "load_images self w = load_from_minio self w"
    by (simp add: load_images_def minio_not_s3)
  with m(2) f show "isl (fst (load_images self w))"
    by (auto simp: load_from_minio_ready minio_images_listing_fail minio_images_fail)
qed

theorem load_images_all_or_nothing_witness:
  "fst (load_images (init ''data/a.PNG'' None None) demo_world) = Inl NotADirectoryError \<and>
   fst (load_file ''broken/a.png'' demo_world) = Inr \<lparr>getvalue = [5], tell = 0\<rparr> \<and>
   isl (fst (load_images (init ''broken'' None None) demo_world)) \<and>
   fst (load_images (init ''s3://nope'' None (Some (demo_s3_config ''nope''))) demo_world)
     = Inl (ClientError ''NoSuchBucket'') \<and>
   s3_body demo_s3 (Str ''flaky'') ''x.jpg'' = Inr [7, 8] \<and>
   isl (fst (load_images (init ''s3://flaky'' None (Some (demo_s3_config ''flaky''))) demo_world)) \<and>
   isl (fst (load_images (init ''minio://nope'' (Some (demo_minio_config ''nope'')) None) demo_world))"
proof -
  let ?a = "init ''data/a.PNG'' None None" and ?b = "init ''broken'' None None"
  let ?c = "init ''s3://nope'' None (Some (demo_s3_config ''nope''))"
  let ?d = "init ''s3://flaky'' None (Some (demo_s3_config ''flaky''))"
  let ?e = "init ''minio://nope'' (Some (demo_minio_config ''nope'')) None"
  have a: "\<not> startswith (source ?a) ''s3://'' \<and> \<not> startswith (source ?a) ''minio://'' \<and>
      fs demo_world (source ?a) \<noteq> None \<and>
      fst (os_listdir (source ?a) demo_world) = Inl NotADirectoryError"
    by (simp add: demo_eval os_listdir_def startswith_def)
  have b: "\<not> startswith (source ?b) ''s3://'' \<and> \<not> startswith (source ?b) ''minio://'' \<and>
      fst (os_listdir (source ?b) demo_world) = Inr [''a.png'', ''b.png''] \<and>
      ''b.png'' \<in> set [''a.png'', ''b.png''] \<and> is_image ''b.png'' \<and>
      isl (fst (open_read (join (source ?b) ''b.png'') demo_world))"
    by (simp add: demo_eval os_listdir_def open_read_def str_eval)
  have c: "startswith (source ?c) ''s3://'' \<and> s3_ready ?c demo_world demo_s3 (Str ''nope'') \<and>
      s3_pages demo_s3 (Str ''nope'') = Inl (ClientError ''NoSuchBucket'')"
    by (simp add: demo_eval startswith_def)
  have d: "startswith (source ?d) ''s3://'' \<and> s3_ready ?d demo_world demo_s3 (Str ''flaky'') \<and>
      s3_pages demo_s3 (Str ''flaky'') = Inr [[''x.jpg'', ''z.bmp'']] \<and>
      ''z.bmp'' \<in> set (concat (take 1 [[''x.jpg'', ''z.bmp'']])) \<and> is_image ''z.bmp'' \<and>
      isl (s3_body demo_s3 (Str ''flaky'') ''z.bmp'')"
    by (simp add: demo_eval startswith_def str_eval)
  have e: "startswith (source ?e) ''minio://'' \<and>
      minio_ready ?e demo_world demo_minio (Str ''nope'') \<and>
      (snd (minio_names demo_minio (Str ''nope'')) \<noteq> None \<or>
       (\<exists>key\<in>set (fst (minio_names demo_minio (Str ''nope''))).
          is_image key \<and> isl (minio_fget demo_minio (Str ''nope'') key (BytesIO_of []))))"
    by (simp add: demo_eval startswith_def)
  have f: "fst (load_file ''broken/a.png'' demo_world) = Inr \<lparr>getvalue = [5], tell = 0\<rparr>"
    "s3_body demo_s3 (Str ''flaky'') ''x.jpg'' = Inr [7, 8]"
    by (simp_all add: load_file_eq demo_eval)
  from a load_images_all_or_nothing [of ?a demo_world NotADirectoryError]
  have 1: "fst (load_images ?a demo_world) = Inl NotADirectoryError" by blast
  from b load_images_all_or_nothing [of ?b demo_world _ "[''a.png'', ''b.png'']" "''b.png''"]
  have 2: "isl (fst (load_images ?b demo_world))" by blast
  from c load_images_all_or_nothing [of ?c demo_world _ _ _ demo_s3 "Str ''nope''"
      "ClientError ''NoSuchBucket''"]
  have 3: "fst (load_images ?c demo_world) = Inl (ClientError ''NoSuchBucket'')" by blast
  from d load_images_all_or_nothing [of ?d demo_world _ _ _ demo_s3 "Str ''flaky''" _
      "[[''x.jpg'', ''z.bmp'']]" "''z.bmp''"]
  have 4: "isl (fst (load_images ?d demo_world))" by blast
  from e load_images_all_or_nothing [of ?e demo_world _ _ _ _ _ _ _ _ demo_minio "Str ''nope''"]
  have 5: "isl (fst (load_images ?e demo_world))" by blast
  from 1 2 3 4 5 f show ?thesis by blast
qed

text \<open>
  C7. With an S3 source, a complete configuration and a client, \<open>load_images\<close> makes
  exactly one listing request (\<open>list_objects_v2\<close> on the bucket, without continuation
  token). When it returns a mapping, the keys are exactly the matching keys of the first
  page of the listing; a key that appears only on a later page is not among them. Each key
  maps to a stream holding the bytes of its object, at position 0.
\<close>

theorem s3_first_page_only:
  "startswith (source self) ''s3://'' \<and> s3_ready self w s3 bucket \<longrightarrow>
     length (filter is_listing (new_calls w (snd (load_images self w)))) = 1 \<and>
     Call_list_objects_v2 bucket \<in> set (new_calls w (snd (load_images self w))) \<and>
     (\<forall>pages d. s3_pages s3 bucket = Inr pages \<and> fst (load_images self w) = Inr d \<longrightarrow>
        set (keys d) = {k \<in> set (concat (take 1 pages)). is_image k} \<and>
        (\<forall>k\<in>set (concat (drop 1 pages)).
           k \<notin> set (concat (take 1 pages)) \<longrightarrow> k \<notin> set (keys d)) \<and>
        (\<forall>k body. k \<in> set (keys d) \<and> s3_body s3 bucket k = Inr body \<longrightarrow>
           map_of d k = Some \<lparr>getvalue = body, tell = 0\<rparr>))"
proof (intro impI, elim conjE)
  assume s3: "startswith (source self) ''s3://''" and r: "s3_ready self w s3 bucket"
  have li: "load_images self w = load_from_s3 self w"
    using s3 by (simp add: load_images_def)
  from load_from_s3_ready_calls [OF r] obtain cs
    where cs: "new_calls w (snd (load_from_s3 self w))
                 = [Call_boto3_client, Call_list_objects_v2 bucket] @ cs"
      "\<forall>c\<in>set cs. \<not> is_listing c"
    by blast
  from cs(2) have "filter is_listing cs = []" by (simp add: filter_empty_conv)
  with cs(1) have one: "length (filter is_listing (new_calls w (snd (load_images self w)))) = 1"
    and made: "Call_list_objects_v2 bucket \<in> set (new_calls w (snd (load_images self w)))"
    by (simp_all add: li)
  have res: "set (keys d) = {k \<in> set (concat (take 1 pages)). is_image k} \<and>
        (\<forall>k\<in>set (concat (drop 1 pages)).
           k \<notin> set (concat (take 1 pages)) \<longrightarrow> k \<notin> set (keys d)) \<and>
        (\<forall>k body. k \<in> set (keys d) \<and> s3_body s3 bucket k = Inr body \<longrightarrow>
           map_of d k = Some \<lparr>getvalue = body, tell = 0\<rparr>)"
    if p: "s3_pages s3 bucket = Inr pages" and d: "fst (load_images self w) = Inr d" for pages d
  proof -
    let ?w = "did (Call_list_objects_v2 bucket) (did Call_boto3_client w)"
    from p d have run: "fst (s3_images s3 bucket (concat (take 1 pages)) [] ?w) = Inr d"
      by (simp add: li load_from_s3_ready [OF r] first_page_eq)
    from s3_images_keys [OF run]
    have k: "set (keys d) = {k \<in> set (concat (take 1 pages)). is_image k}"
      by (simp add: keys_def)
    have v: "map_of d k = Some \<lparr>getvalue = body, tell = 0\<rparr>"
      if "k \<in> set (keys d)" "s3_body s3 bucket k = Inr body" for k body
      using s3_images_map_of [OF run, of k] that k by auto
    from k v show ?thesis by blast
  qed
  from one made res
  show "length (filter is_listing (new_calls w (snd (load_images self w)))) = 1 \<and>
     Call_list_objects_v2 bucket \<in> set (new_calls w (snd (load_images self w))) \<and>
     (\<forall>pages d. s3_pages s3 bucket = Inr pages \<and> fst (load_images self w) = Inr d \<longrightarrow>
        set (keys d) = {k \<in> set (concat (take 1 pages)). is_image k} \<and>
        (\<forall>k\<in>set (concat (drop 1 pages)).
           k \<notin> set (concat (take 1 pages)) \<longrightarrow> k \<notin> set (keys d)) \<and>
        (\<forall>k body. k \<in> set (keys d) \<and> s3_body s3 bucket k = Inr body \<longrightarrow>
           map_of d k = Some \<lparr>getvalue = body, tell = 0\<rparr>))"
    by blast
qed

theorem s3_first_page_only_witness:
  "load_images (init ''s3://imgs'' None (Some (demo_s3_config ''imgs''))) demo_world
     = (Inr [(''x.jpg'', \<lparr>getvalue = [7, 8], tell = 0\<rparr>)],
        demo_world\<lparr>calls := [Call_boto3_client, Call_list_objects_v2 (Str ''imgs''),
                               Call_download_fileobj (Str ''imgs'') ''x.jpg'']\<rparr>) \<and>
   s3_pages demo_s3 (Str ''imgs'') = Inr [[''x.jpg'', ''readme.md''], [''y.png'']] \<and>
   is_image ''y.png'' \<and>
   ''y.png'' \<notin> set (keys [(''x.jpg'', \<lparr>getvalue = [7, 8], tell = 0\<rparr>)]) \<and>
   length (filter is_listing
     (new_calls demo_world
        (snd (load_images (init ''s3://imgs'' None (Some (demo_s3_config ''imgs''))) demo_world))))
     = 1"
proof -
  let ?self = "init ''s3://imgs'' None (Some (demo_s3_config ''imgs''))"
  let ?d = "[(''x.jpg'', \<lparr>getvalue = [7, 8], tell = 0\<rparr>)]"
  have h: "startswith (source ?self) ''s3://'' \<and> s3_ready ?self demo_world demo_s3 (Str ''imgs'')"
    by (simp add: demo_eval startswith_def)
  have ev: "load_images ?self demo_world
     = (Inr ?d,
        demo_world\<lparr>calls := [Call_boto3_client, Call_list_objects_v2 (Str ''imgs''),
                               Call_download_fileobj (Str ''imgs'') ''x.jpg'']\<rparr>)"
    by (simp add: load_images_def load_from_s3_def list_objects_v2_def get_Contents_def
        download_empty_eq getitem_def seek_def setitem_def did_def demo_eval str_eval)
  have p: "s3_pages demo_s3 (Str ''imgs'') = Inr [[''x.jpg'', ''readme.md''], [''y.png'']]"
    by (simp add: demo_s3_def)
  have y: "is_image ''y.png''" by (simp add: str_eval)
  from s3_first_page_only [of ?self demo_world demo_s3 "Str ''imgs''"] h
  have "length (filter is_listing (new_calls demo_world (snd (load_images ?self demo_world)))) = 1"
    and "\<forall>pages d. s3_pages demo_s3 (Str ''imgs'') = Inr pages \<and>
            fst (load_images ?self demo_world) = Inr d \<longrightarrow>
          (\<forall>k\<in>set (concat (drop 1 pages)).
             k \<notin> set (concat (take 1 pages)) \<longrightarrow> k \<notin> set (keys d))"
    by blast+
  with p ev have "length (filter is_listing (new_calls demo_world (snd (load_images ?self demo_world)))) = 1"
    and "''y.png'' \<notin> set (keys ?d)"
    by auto
  with ev p y show ?thesis by blast
qed

text \<open>
  C8, evaluated. A MinIO bucket holds \<open>top.txt\<close> and the nested object \<open>a/b/c.png\<close>; the
  configuration is complete and the client library behaves as the minio package does. The
  load constructs the client, lists the bucket recursively, reaches the nested object and
  calls \<open>fget_object\<close> with a stream where the library takes a path: the call raises
  TypeError and \<open>load_images\<close> returns no entry for the object.
\<close>

theorem minio_nested_object_raises:
  "minio_ready (init ''minio://imgs'' (Some (demo_minio_config ''imgs'')) None) demo_world
     demo_minio (Str ''imgs'') \<and>
   minio_names demo_minio (Str ''imgs'') = ([''top.txt'', ''a/b/c.png''], None) \<and>
   load_images (init ''minio://imgs'' (Some (demo_minio_config ''imgs'')) None) demo_world
     = (Inl TypeError,
        demo_world\<lparr>calls := [Call_Minio, Call_list_objects (Str ''imgs'') True,
                               Call_fget_object (Str ''imgs'') ''a/b/c.png'']\<rparr>)"
  by (simp add: load_images_def load_from_minio_def list_objects_def fget_object_def
      minio_py_fget_def getitem_def did_def demo_eval str_eval)

text \<open>
  C9. The result of \<open>load_images\<close> is a function of the loader and of the origin (file
  system and services): two worlds that differ only in the log of earlier calls give the
  same result. A load changes nothing but that log, so a second load right after the first
  returns an equal result: the same keys with the same bytes, or the same exception.
\<close>

theorem load_images_deterministic:
  "fst (load_images self (snd (load_images self w))) = fst (load_images self w) \<and>
   (same_origin w w' \<longrightarrow> fst (load_images self w') = fst (load_images self w))"
  using load_images_indep [of "snd (load_images self w)" w self]
    load_images_same_origin [of w self] load_images_indep [of w' w self]
  by (auto simp: same_origin_def)

theorem load_images_deterministic_witness:
  "fst (load_images (init ''data'' None None) (demo_world\<lparr>calls := [Call_exists ''x'']\<rparr>))
     = fst (load_images (init ''data'' None None) demo_world)"
proof -
  have "same_origin demo_world (demo_world\<lparr>calls := [Call_exists ''x'']\<rparr>)"
    by (simp add: same_origin_def)
  with load_images_deterministic [of "init ''data'' None None" demo_world
      "demo_world\<lparr>calls := [Call_exists ''x'']\<rparr>"]
  show ?thesis by blast
qed

text \<open>
  C10. A configuration that is supplied but empty is treated exactly like an absent one:
  the presence test is \<open>not self.s3_config\<close> (truthiness), which an empty dict fails as
  \<open>None\<close> does. The call gives the same outcome as with \<open>None\<close>: the same ValueError,
  and an unchanged world.
\<close>

theorem remote_config_empty:
  "(startswith (source self) ''s3://'' \<and> s3_config self = Some [] \<longrightarrow>
      load_images self w = load_images (self\<lparr>s3_config := None\<rparr>) w \<and>
      load_images self w
        = (Inl (ValueError ''S3 configuration is required for loading from S3.''), w)) \<and>
   (startswith (source self) ''minio://'' \<and> minio_config self = Some [] \<longrightarrow>
      load_images self w = load_images (self\<lparr>minio_config := None\<rparr>) w \<and>
      load_images self w
        = (Inl (ValueError ''MinIO configuration is required for loading from MinIO.''), w))"
  by (simp add: load_images_def minio_not_s3 load_from_s3_def load_from_minio_def)

theorem remote_config_empty_witness:
  "load_images (init ''s3://imgs'' None (Some [])) demo_world
     = load_images (init ''s3://imgs'' None None) demo_world \<and>
   load_images (init ''minio://imgs'' (Some []) None) demo_world
     = load_images (init ''minio://imgs'' None None) demo_world \<and>
   load_images (init ''minio://imgs'' (Some []) None) demo_world
     = (Inl (ValueError ''MinIO configuration is required for loading from MinIO.''), demo_world)"
proof -
  let ?a = "init ''s3://imgs'' None (Some [])" and ?b = "init ''minio://imgs'' (Some []) None"
  have a: "startswith (source ?a) ''s3://'' \<and> s3_config ?a = Some []"
    and b: "startswith (source ?b) ''minio://'' \<and> minio_config ?b = Some []"
    by (simp_all add: init_def startswith_def)
  have ea: "?a\<lparr>s3_config := None\<rparr> = init ''s3://imgs'' None None"
    and eb: "?b\<lparr>minio_config := None\<rparr> = init ''minio://imgs'' None None"
    by (simp_all add: init_def)
  from a b remote_config_empty [of ?a demo_world] remote_config_empty [of ?b demo_world]
  show ?thesis unfolding ea eb by blast
qed

end
